theory Spec2Isabelle
  imports Complex_Main
begin

section \<open>Python values, dictionaries and exceptions\<close>

text \<open>
  The loader of \<^verbatim>\<open>cargador_optimizado.py\<close> handles whatever \<^verbatim>\<open>json.load\<close> returns: a
  dict, a list, a string, an int, a float, a bool or \<^verbatim>\<open>None\<close>. One datatype holds all of
  them; \<open>JNull\<close> is Python's \<^verbatim>\<open>None\<close>. A dict keeps insertion order, so an object is an
  association list. Strings are byte strings: the model covers ASCII names. A float is a
  real number; only whether it is zero matters here (\<^verbatim>\<open>NaN\<close> and the infinities, which
  are not zero, have no value of their own).
\<close>

datatype json =
    JNull
  | JBool bool
  | JInt int
  | JFloat real
  | JStr string
  | JArr "json list"
  | JObj "(string \<times> json) list"

text \<open>
  The exceptions the loader meets. \<open>ConnectionFailure\<close> stands for the pymongo class and
  its subclasses, \<open>OtherException\<close> for any other subclass of \<^verbatim>\<open>Exception\<close>
  (\<^verbatim>\<open>UnicodeDecodeError\<close>, \<^verbatim>\<open>BadZipFile\<close>, \<^verbatim>\<open>OperationFailure\<close>, ...), and
  \<open>KeyboardInterrupt\<close> for the one \<^verbatim>\<open>BaseException\<close> that \<^verbatim>\<open>main\<close> names.
\<close>

datatype py_exc =
    JSONDecodeError
  | KeyError
  | FileNotFoundError
  | TypeError
  | RuntimeError
  | ConnectionFailure
  | BulkWriteError
  | OtherException
  | KeyboardInterrupt

text \<open>What \<^verbatim>\<open>except Exception\<close> catches.\<close>

fun is_Exception :: "py_exc \<Rightarrow> bool" where
  "is_Exception KeyboardInterrupt = False"
| "is_Exception _ = True"

text \<open>Python truthiness, as \<^verbatim>\<open>if json_data:\<close> tests it.\<close>

fun truthy :: "json \<Rightarrow> bool" where
  "truthy JNull = False"
| "truthy (JBool b) = b"
| "truthy (JInt i) = (i \<noteq> 0)"
| "truthy (JFloat x) = (x \<noteq> 0)"
| "truthy (JStr s) = (s \<noteq> [])"
| "truthy (JArr xs) = (xs \<noteq> [])"
| "truthy (JObj kvs) = (kvs \<noteq> [])"

text \<open>\<^verbatim>\<open>d[k] = v\<close> on a dict: an existing key keeps its place, a new key goes last.\<close>

fun dict_set :: "string \<Rightarrow> 'v \<Rightarrow> (string \<times> 'v) list \<Rightarrow> (string \<times> 'v) list" where
  "dict_set k v [] = [(k, v)]"
| "dict_set k v ((k', v') # kvs) =
     (if k' = k then (k, v) # kvs else (k', v') # dict_set k v kvs)"

text \<open>\<^verbatim>\<open>d.get(k)\<close> and \<^verbatim>\<open>k in d\<close>.\<close>

definition dict_get :: "(string \<times> 'v) list \<Rightarrow> string \<Rightarrow> 'v option" where
  "dict_get d k = map_of d k"

definition dict_contains :: "string \<Rightarrow> (string \<times> 'v) list \<Rightarrow> bool" where
  "dict_contains k d = (k \<in> set (map fst d))"

text \<open>
  \<^verbatim>\<open>json_data[k] = v\<close> with a string key: a dict is updated; a list, a string and a number
  raise \<^verbatim>\<open>TypeError\<close> (\<^verbatim>\<open>None\<close> too, but the loader never gets there with it).
\<close>

fun set_item :: "json \<Rightarrow> string \<Rightarrow> json \<Rightarrow> py_exc + json" where
  "set_item (JObj kvs) k v = Inr (JObj (dict_set k v kvs))"
| "set_item _ k v = Inl TypeError"

section \<open>The archive and the store\<close>

text \<open>
  The ZIP library and the JSON parser are not code of the repository. An archive is the
  list \<^verbatim>\<open>infolist()\<close> returns and, for every entry name, what
  \<^verbatim>\<open>json.load(zip_file.open(name))\<close> does: the parsed value, or the exception raised
  (\<open>KeyError\<close> for a name that is not in the archive, \<open>JSONDecodeError\<close> for bytes that
  are not JSON).
\<close>

record zip_info =
  filename :: string
  is_dir :: bool

record zip_archive =
  infolist :: "zip_info list"
  read_json :: "string \<Rightarrow> py_exc + json"

text \<open>An index specification, as \<^verbatim>\<open>create_index\<close> receives it.\<close>

datatype index_spec =
    IdxField string
  | IdxCompound "(string \<times> int) list"

text \<open>The calls the loader makes on the outside world, in order.\<close>

datatype event =
    Connect
  | Ping
  | OpenZip
  | ListZip
  | InsertMany string "json list"
  | CreateIndex string index_spec
  | FindOne string
  | CloseZip
  | CloseClient

text \<open>
  The environment answers every call. An answer may depend on all the calls made before
  (the \<open>event list\<close>), so a store that fails on its third request, or only for one
  collection, is one environment among the others. \<open>None\<close> is a call that returns.
\<close>

record environment =
  env_mongo_uri :: "string option"
  env_database_name :: "string option"
  client_result :: "py_exc option"
  ping_result :: "py_exc option"
  zip_open_result :: "py_exc + zip_archive"
  insert_many_result :: "event list \<Rightarrow> string \<Rightarrow> json list \<Rightarrow> py_exc option"
  create_index_result :: "event list \<Rightarrow> string \<Rightarrow> index_spec \<Rightarrow> py_exc option"
  find_one_result :: "event list \<Rightarrow> string \<Rightarrow> py_exc + (string \<times> json) list option"

text \<open>The fields of \<^verbatim>\<open>FacturasZipLoaderOptimizado\<close> that change during a run.\<close>

record loader =
  database_name :: string
  client :: bool
  db :: "string option"
  zip_file :: "zip_archive option"

section \<open>Record decoder\<close>

text \<open>
  \<^verbatim>\<open>load_json_fast\<close>: \<^verbatim>\<open>None\<close> without an open archive; the three exceptions of the
  \<^verbatim>\<open>except\<close> clause become \<^verbatim>\<open>None\<close>, any other propagates.
\<close>

definition load_json_fast :: "loader \<Rightarrow> string \<Rightarrow> py_exc + json" where
  "load_json_fast self file_path =
     (case zip_file self of
        None \<Rightarrow> Inr JNull
      | Some z \<Rightarrow>
          (case read_json z file_path of
             Inr v \<Rightarrow> Inr v
           | Inl e \<Rightarrow>
               if e = JSONDecodeError \<or> e = KeyError \<or> e = FileNotFoundError
               then Inr JNull else Inl e))"

section \<open>Collection names\<close>

text \<open>\<^verbatim>\<open>s.replace(' ', '_')\<close> and \<^verbatim>\<open>s.lower()\<close> on ASCII strings.\<close>

definition replace_char :: "char \<Rightarrow> char \<Rightarrow> string \<Rightarrow> string" where
  "replace_char old new s = map (\<lambda>c. if c = old then new else c) s"

definition lower_char :: "char \<Rightarrow> char" where
  "lower_char c =
     (let n = (of_char c :: nat) in if 65 \<le> n \<and> n \<le> 90 then char_of (n + 32) else c)"

definition py_lower :: "string \<Rightarrow> string" where
  "py_lower s = map lower_char s"

definition collection_name_of :: "string \<Rightarrow> string" where
  "collection_name_of folder_name = py_lower (replace_char CHR '' '' CHR ''_'' folder_name)"

section \<open>Bulk writer\<close>

text \<open>
  \<^verbatim>\<open>execute_batch\<close>: one \<^verbatim>\<open>insert_many\<close>; \<^verbatim>\<open>BulkWriteError\<close> and every other
  \<^verbatim>\<open>Exception\<close> are swallowed.
\<close>

definition execute_batch ::
  "environment \<Rightarrow> event list \<Rightarrow> string \<Rightarrow> json list \<Rightarrow> event list \<times> (py_exc + unit)" where
  "execute_batch env tr collection batch_data =
     (let tr' = tr @ [InsertMany collection batch_data] in
      case insert_many_result env tr collection batch_data of
        None \<Rightarrow> (tr', Inr ())
      | Some e \<Rightarrow>
          if e = BulkWriteError then (tr', Inr ())
          else if is_Exception e then (tr', Inr ())
          else (tr', Inl e))"

section \<open>Batch accumulator\<close>

text \<open>
  The counters of \<^verbatim>\<open>stats\<close>. The wall-clock fields (\<^verbatim>\<open>start_time\<close>, \<^verbatim>\<open>duration\<close>,
  \<^verbatim>\<open>docs_per_second\<close>) decide nothing and are left out.
\<close>

record stats =
  total_files :: nat
  loaded_files :: nat
  failed_files :: nat
  batch_count :: nat

text \<open>
  One turn of the \<^verbatim>\<open>for file_path in file_list\<close> loop, on the loop's variables
  \<^verbatim>\<open>batch_data\<close> and \<^verbatim>\<open>stats\<close>. An exception leaves the loop with the calls made so far.
\<close>

definition process_entry ::
  "environment \<Rightarrow> loader \<Rightarrow> string \<Rightarrow> string \<Rightarrow> int \<Rightarrow> string \<Rightarrow>
   json list \<Rightarrow> stats \<Rightarrow> event list \<Rightarrow> event list \<times> (py_exc + json list \<times> stats)" where
  "process_entry env self collection folder_name batch_size file_path batch_data st tr =
     (case load_json_fast self file_path of
        Inl e \<Rightarrow> (tr, Inl e)
      | Inr json_data \<Rightarrow>
          if truthy json_data then
            (case set_item json_data ''_source_file'' (JStr file_path) of
               Inl e \<Rightarrow> (tr, Inl e)
             | Inr d1 \<Rightarrow>
                 (case set_item d1 ''_source_folder'' (JStr folder_name) of
                    Inl e \<Rightarrow> (tr, Inl e)
                  | Inr d2 \<Rightarrow>
                      (let batch' = batch_data @ [d2];
                           st' = st\<lparr>loaded_files := loaded_files st + 1\<rparr>
                       in if int (length batch') \<ge> batch_size then
                            (case execute_batch env tr collection batch' of
                               (tr', Inl e) \<Rightarrow> (tr', Inl e)
                             | (tr', Inr _) \<Rightarrow>
                                 (tr', Inr ([], st'\<lparr>batch_count := batch_count st' + 1\<rparr>)))
                          else (tr, Inr (batch', st')))))
          else (tr, Inr (batch_data, st\<lparr>failed_files := failed_files st + 1\<rparr>)))"

fun process_files ::
  "environment \<Rightarrow> loader \<Rightarrow> string \<Rightarrow> string \<Rightarrow> int \<Rightarrow> string list \<Rightarrow>
   json list \<Rightarrow> stats \<Rightarrow> event list \<Rightarrow> event list \<times> (py_exc + json list \<times> stats)" where
  "process_files env self collection folder_name batch_size [] batch_data st tr =
     (tr, Inr (batch_data, st))"
| "process_files env self collection folder_name batch_size (file_path # rest) batch_data st tr =
     (case process_entry env self collection folder_name batch_size file_path batch_data st tr of
        (tr', Inl e) \<Rightarrow> (tr', Inl e)
      | (tr', Inr (batch', st')) \<Rightarrow>
          process_files env self collection folder_name batch_size rest batch' st' tr')"

text \<open>
  \<^verbatim>\<open>process_folder\<close>: the guard on the connection, the loop, and the last batch
  (\<^verbatim>\<open>if batch_data:\<close>). It returns the calls made and the statistics, or the exception.
\<close>

definition process_folder ::
  "environment \<Rightarrow> loader \<Rightarrow> event list \<Rightarrow> string \<Rightarrow> string list \<Rightarrow> int \<Rightarrow>
   event list \<times> (py_exc + stats)" where
  "process_folder env self tr folder_name file_list batch_size =
     (case db self of
        None \<Rightarrow> (tr, Inl RuntimeError)
      | Some _ \<Rightarrow>
          (let collection = collection_name_of folder_name;
               st0 = \<lparr>total_files = length file_list, loaded_files = 0,
                      failed_files = 0, batch_count = 0\<rparr>
           in case process_files env self collection folder_name batch_size file_list [] st0 tr of
                (tr', Inl e) \<Rightarrow> (tr', Inl e)
              | (tr', Inr (batch_data, st)) \<Rightarrow>
                  if batch_data \<noteq> [] then
                    (case execute_batch env tr' collection batch_data of
                       (tr'', Inl e) \<Rightarrow> (tr'', Inl e)
                     | (tr'', Inr _) \<Rightarrow> (tr'', Inr (st\<lparr>batch_count := batch_count st + 1\<rparr>)))
                  else (tr', Inr st)))"

text \<open>The batches handed to the bulk writer among some calls, with their collection.\<close>

fun batches :: "event list \<Rightarrow> (string \<times> json list) list" where
  "batches [] = []"
| "batches (InsertMany c b # evs) = (c, b) # batches evs"
| "batches (_ # evs) = batches evs"

section \<open>Archive reader\<close>

text \<open>\<^verbatim>\<open>s.endswith(suffix)\<close>.\<close>

definition endswith :: "string \<Rightarrow> string \<Rightarrow> bool" where
  "endswith s suffix =
     (length suffix \<le> length s \<and> drop (length s - length suffix) s = suffix)"

text \<open>\<^verbatim>\<open>folder_structure[k].append(v)\<close> on a \<^verbatim>\<open>defaultdict(list)\<close>.\<close>

fun dd_append :: "string \<Rightarrow> 'v \<Rightarrow> (string \<times> 'v list) list \<Rightarrow> (string \<times> 'v list) list" where
  "dd_append k v [] = [(k, [v])]"
| "dd_append k v ((k', vs) # kvs) =
     (if k' = k then (k', vs @ [v]) # kvs else (k', vs) # dd_append k v kvs)"

text \<open>
  The body of the loop of \<^verbatim>\<open>analyze_zip_structure\<close>. \<^verbatim>\<open>parts[0]\<close> of
  \<^verbatim>\<open>filename.split('/')\<close> is the text before the first slash, and there is more than one
  part when the name has a slash.
\<close>

definition analyze_entry ::
  "(string \<times> string list) list \<Rightarrow> zip_info \<Rightarrow> (string \<times> string list) list" where
  "analyze_entry folder_structure file_info =
     (if endswith (filename file_info) ''.json'' \<and> \<not> is_dir file_info then
        (if CHR ''/'' \<in> set (filename file_info)
         then dd_append (takeWhile (\<lambda>c. c \<noteq> CHR ''/'') (filename file_info))
                (filename file_info) folder_structure
         else dd_append ''root'' (filename file_info) folder_structure)
      else folder_structure)"

definition folders_of :: "zip_info list \<Rightarrow> (string \<times> string list) list" where
  "folders_of infos = foldl analyze_entry [] infos"

definition analyze_zip_structure ::
  "environment \<Rightarrow> event list \<Rightarrow> event list \<times> (py_exc + (string \<times> string list) list)" where
  "analyze_zip_structure env tr =
     (tr @ [ListZip],
      case zip_open_result env of
        Inl e \<Rightarrow> Inl e
      | Inr z \<Rightarrow> Inr (folders_of (infolist z)))"

definition open_zip_file ::
  "environment \<Rightarrow> loader \<Rightarrow> event list \<Rightarrow> loader \<times> event list \<times> (py_exc + unit)" where
  "open_zip_file env self tr =
     (case zip_open_result env of
        Inl e \<Rightarrow> (self, tr @ [OpenZip], Inl e)
      | Inr z \<Rightarrow> (self\<lparr>zip_file := Some z\<rparr>, tr @ [OpenZip], Inr ()))"

section \<open>Index builder\<close>

definition create_index ::
  "environment \<Rightarrow> event list \<Rightarrow> string \<Rightarrow> index_spec \<Rightarrow> event list \<times> (py_exc + unit)" where
  "create_index env tr collection spec =
     (tr @ [CreateIndex collection spec],
      case create_index_result env tr collection spec of
        None \<Rightarrow> Inr ()
      | Some e \<Rightarrow> Inl e)"

definition find_one ::
  "environment \<Rightarrow> event list \<Rightarrow> string \<Rightarrow>
   event list \<times> (py_exc + (string \<times> json) list option)" where
  "find_one env tr collection = (tr @ [FindOne collection], find_one_result env tr collection)"

text \<open>\<^verbatim>\<open>sample and key in sample\<close>: a document that is there, not empty, and has the key.\<close>

definition sample_has :: "(string \<times> json) list option \<Rightarrow> string \<Rightarrow> bool" where
  "sample_has sample key =
     (case sample of None \<Rightarrow> False | Some d \<Rightarrow> d \<noteq> [] \<and> dict_contains key d)"

text \<open>The body of the \<^verbatim>\<open>try\<close> of \<^verbatim>\<open>create_indexes\<close>, for one collection.\<close>

definition index_collection ::
  "environment \<Rightarrow> event list \<Rightarrow> string \<Rightarrow> event list \<times> (py_exc + unit)" where
  "index_collection env tr collection =
     (case create_index env tr collection (IdxField ''_source_file'') of
        (tr1, Inl e) \<Rightarrow> (tr1, Inl e)
      | (tr1, Inr _) \<Rightarrow>
     (case create_index env tr1 collection (IdxField ''_source_folder'') of
        (tr2, Inl e) \<Rightarrow> (tr2, Inl e)
      | (tr2, Inr _) \<Rightarrow>
     (case create_index env tr2 collection
             (IdxCompound [(''_source_folder'', 1), (''_source_file'', 1)]) of
        (tr3, Inl e) \<Rightarrow> (tr3, Inl e)
      | (tr3, Inr _) \<Rightarrow>
     (case find_one env tr3 collection of
        (tr4, Inl e) \<Rightarrow> (tr4, Inl e)
      | (tr4, Inr sample) \<Rightarrow>
     (case (if sample_has sample ''factura_num''
            then create_index env tr4 collection (IdxField ''factura_num'')
            else (tr4, Inr ())) of
        (tr5, Inl e) \<Rightarrow> (tr5, Inl e)
      | (tr5, Inr _) \<Rightarrow>
          (if sample_has sample ''fecha_hora''
           then create_index env tr5 collection (IdxField ''fecha_hora'')
           else (tr5, Inr ())))))))"

text \<open>The loop over the collections: \<^verbatim>\<open>except Exception\<close> goes on with the next one.\<close>

fun index_collections ::
  "environment \<Rightarrow> event list \<Rightarrow> string list \<Rightarrow> event list \<times> (py_exc + unit)" where
  "index_collections env tr [] = (tr, Inr ())"
| "index_collections env tr (collection_name # rest) =
     (case index_collection env tr collection_name of
        (tr', Inl e) \<Rightarrow>
          if is_Exception e then index_collections env tr' rest else (tr', Inl e)
      | (tr', Inr _) \<Rightarrow> index_collections env tr' rest)"

definition create_indexes ::
  "environment \<Rightarrow> loader \<Rightarrow> event list \<Rightarrow> string list \<Rightarrow> event list \<times> (py_exc + unit)" where
  "create_indexes env self tr collections =
     (case db self of
        None \<Rightarrow> (tr, Inr ())
      | Some _ \<Rightarrow> index_collections env tr collections)"

section \<open>Run orchestrator\<close>

text \<open>
  \<^verbatim>\<open>connect_to_mongodb\<close>: the client is built, then pinged; only \<^verbatim>\<open>ConnectionFailure\<close>
  is caught.
\<close>

definition connect_to_mongodb ::
  "environment \<Rightarrow> loader \<Rightarrow> event list \<Rightarrow> loader \<times> event list \<times> (py_exc + bool)" where
  "connect_to_mongodb env self tr =
     (case client_result env of
        Some e \<Rightarrow>
          if e = ConnectionFailure then (self, tr @ [Connect], Inr False)
          else (self, tr @ [Connect], Inl e)
      | None \<Rightarrow>
          (let self1 = self\<lparr>client := True\<rparr>; tr1 = tr @ [Connect, Ping] in
           case ping_result env of
             Some e \<Rightarrow>
               if e = ConnectionFailure then (self1, tr1, Inr False) else (self1, tr1, Inl e)
           | None \<Rightarrow> (self1\<lparr>db := Some (database_name self1)\<rparr>, tr1, Inr True)))"

text \<open>
  The loop over \<^verbatim>\<open>folder_structure.items()\<close> of \<^verbatim>\<open>run_complete_process\<close>, on
  \<^verbatim>\<open>total_loaded\<close> and \<^verbatim>\<open>collection_names\<close>; the batch size is the default of
  \<^verbatim>\<open>process_folder\<close>.
\<close>

fun process_folders ::
  "environment \<Rightarrow> loader \<Rightarrow> (string \<times> string list) list \<Rightarrow> nat \<Rightarrow> string list \<Rightarrow>
   event list \<Rightarrow> event list \<times> (py_exc + nat \<times> string list)" where
  "process_folders env self [] total_loaded collection_names tr =
     (tr, Inr (total_loaded, collection_names))"
| "process_folders env self ((folder_name, file_list) # rest) total_loaded collection_names tr =
     (case process_folder env self tr folder_name file_list 8000 of
        (tr', Inl e) \<Rightarrow> (tr', Inl e)
      | (tr', Inr st) \<Rightarrow>
          process_folders env self rest (total_loaded + loaded_files st)
            (collection_names @ [collection_name_of folder_name]) tr')"

definition run_complete_process ::
  "environment \<Rightarrow> loader \<Rightarrow> event list \<Rightarrow> loader \<times> event list \<times> (py_exc + bool)" where
  "run_complete_process env self tr =
     (case connect_to_mongodb env self tr of
        (self1, tr1, Inl e) \<Rightarrow> (self1, tr1, Inl e)
      | (self1, tr1, Inr ok) \<Rightarrow>
          if \<not> ok then (self1, tr1, Inr False)
          else
     (case open_zip_file env self1 tr1 of
        (self2, tr2, Inl e) \<Rightarrow> (self2, tr2, Inl e)
      | (self2, tr2, Inr _) \<Rightarrow>
     (case analyze_zip_structure env tr2 of
        (tr3, Inl e) \<Rightarrow> (self2, tr3, Inl e)
      | (tr3, Inr folder_structure) \<Rightarrow>
          if folder_structure = [] then (self2, tr3, Inr False)
          else
     (case process_folders env self2 folder_structure 0 [] tr3 of
        (tr4, Inl e) \<Rightarrow> (self2, tr4, Inl e)
      | (tr4, Inr (total_loaded, collection_names)) \<Rightarrow>
     (case create_indexes env self2 tr4 collection_names of
        (tr5, Inl e) \<Rightarrow> (self2, tr5, Inl e)
      | (tr5, Inr _) \<Rightarrow> (self2, tr5, Inr True))))))"

definition close_connection :: "loader \<Rightarrow> event list \<Rightarrow> event list" where
  "close_connection self tr =
     (let tr1 = (if zip_file self \<noteq> None then tr @ [CloseZip] else tr)
      in if client self then tr1 @ [CloseClient] else tr1)"

text \<open>
  How \<^verbatim>\<open>main\<close> ends: without a connection string it returns before a loader exists;
  otherwise the run returns its flag, or is interrupted, or raises, and the
  \<^verbatim>\<open>finally\<close> clause closes what is open.
\<close>

datatype run_result =
    NotConfigured
  | Finished bool
  | Interrupted
  | Crashed py_exc

definition main :: "environment \<Rightarrow> event list \<times> run_result" where
  "main env =
     (case env_mongo_uri env of
        None \<Rightarrow> ([], NotConfigured)
      | Some uri \<Rightarrow>
          if uri = [] then ([], NotConfigured)
          else
            (let dbname = (case env_database_name env of None \<Rightarrow> ''Facturas'' | Some n \<Rightarrow> n);
                 self0 = \<lparr>database_name = dbname, client = False, db = None, zip_file = None\<rparr>
             in case run_complete_process env self0 [] of
                  (self1, tr, Inr success) \<Rightarrow> (close_connection self1 tr, Finished success)
                | (self1, tr, Inl e) \<Rightarrow>
                    (close_connection self1 tr,
                     if e = KeyboardInterrupt then Interrupted else Crashed e)))"

section \<open>Notions used in the statements\<close>

text \<open>
  The record the loop appends for a decoded dict \<open>d\<close>: the two assignments of
  \<^verbatim>\<open>process_folder\<close>, \<^verbatim>\<open>_source_file\<close> first.
\<close>

definition add_metadata :: "string \<Rightarrow> string \<Rightarrow> (string \<times> json) list \<Rightarrow> json" where
  "add_metadata folder_name file_path d =
     JObj (dict_set ''_source_folder'' (JStr folder_name)
            (dict_set ''_source_file'' (JStr file_path) d))"

text \<open>The value of \<^verbatim>\<open>stats\<close> before the loop.\<close>

definition initial_stats :: "string list \<Rightarrow> stats" where
  "initial_stats file_list =
     \<lparr>total_files = length file_list, loaded_files = 0, failed_files = 0, batch_count = 0\<rparr>"

text \<open>
  A small archive and a store for the concrete instances below: one folder with two
  invoices (the second already has a key \<^verbatim>\<open>_source_file\<close>), an empty object, a list, a
  file that is not JSON; a store that rejects part of every batch and cannot index the
  collection \<^verbatim>\<open>rota\<close>.
\<close>

definition demo_archive :: zip_archive where
  "demo_archive =
     \<lparr>infolist =
        [\<lparr>filename = ''Ventas 2024/'', is_dir = True\<rparr>,
         \<lparr>filename = ''Ventas 2024/f1.json'', is_dir = False\<rparr>,
         \<lparr>filename = ''ventas_2024/f2.json'', is_dir = False\<rparr>,
         \<lparr>filename = ''suelto.json'', is_dir = False\<rparr>,
         \<lparr>filename = ''Ventas 2024/leeme.txt'', is_dir = False\<rparr>],
      read_json = (\<lambda>n.
        if n = ''Ventas 2024/f1.json'' then Inr (JObj [(''factura_num'', JInt 1)])
        else if n = ''ventas_2024/f2.json''
          then Inr (JObj [(''_source_file'', JStr ''otro''), (''total'', JInt 5)])
        else if n = ''suelto.json'' then Inr (JObj [(''fecha_hora'', JStr ''2025-09-25'')])
        else if n = ''vacio.json'' then Inr (JObj [])
        else if n = ''lista.json'' then Inr (JArr [JInt 1])
        else if n = ''roto.json'' then Inl JSONDecodeError
        else Inl KeyError)\<rparr>"

definition demo_env :: environment where
  "demo_env =
     \<lparr>env_mongo_uri = Some ''mongodb://localhost'',
      env_database_name = None,
      client_result = None,
      ping_result = None,
      zip_open_result = Inr demo_archive,
      insert_many_result = (\<lambda>h c b. Some BulkWriteError),
      create_index_result = (\<lambda>h c s. if c = ''rota'' then Some OtherException else None),
      find_one_result = (\<lambda>h c. Inr (Some [(''_id'', JInt 1), (''factura_num'', JInt 7)]))\<rparr>"

definition demo_loader :: loader where
  "demo_loader =
     \<lparr>database_name = ''Facturas'', client = True, db = Some ''Facturas'',
      zip_file = Some demo_archive\<rparr>"

text \<open>A record made from the dict that one of the entries \<open>F\<close> decodes to.\<close>

definition produced_by :: "loader \<Rightarrow> string \<Rightarrow> string set \<Rightarrow> json \<Rightarrow> bool" where
  "produced_by self folder F doc =
     (\<exists>f d. f \<in> F \<and> load_json_fast self f = Inr (JObj d) \<and> doc = add_metadata folder f d)"

text \<open>
  An archive in which every name is an invoice, and the entry names of a partition of
  \<open>k\<close> entries, for the scenario with three partitions.
\<close>

definition uniform_archive :: zip_archive where
  "uniform_archive = \<lparr>infolist = [], read_json = (\<lambda>n. Inr (JObj [(''archivo'', JStr n)]))\<rparr>"

definition uniform_loader :: loader where
  "uniform_loader =
     \<lparr>database_name = ''Facturas'', client = True, db = Some ''Facturas'',
      zip_file = Some uniform_archive\<rparr>"

definition scenario_entries :: "string \<Rightarrow> nat \<Rightarrow> string list" where
  "scenario_entries folder k =
     map (\<lambda>i. folder @ ''/'' @ replicate (Suc i) CHR ''x'' @ ''.json'') [0..<k]"

text \<open>
  The calls the specification asks of the index builder for one collection: the two
  provenance fields, each alone and then together, the probe, and an index on each
  business field that the probed document has.
\<close>

definition index_calls_expected :: "string \<Rightarrow> (string \<times> json) list option \<Rightarrow> event list" where
  "index_calls_expected collection sample =
     [CreateIndex collection (IdxField ''_source_file''),
      CreateIndex collection (IdxField ''_source_folder''),
      CreateIndex collection (IdxCompound [(''_source_folder'', 1), (''_source_file'', 1)]),
      FindOne collection] @
     (if (case sample of None \<Rightarrow> False | Some d \<Rightarrow> dict_contains ''factura_num'' d)
      then [CreateIndex collection (IdxField ''factura_num'')] else []) @
     (if (case sample of None \<Rightarrow> False | Some d \<Rightarrow> dict_contains ''fecha_hora'' d)
      then [CreateIndex collection (IdxField ''fecha_hora'')] else [])"

text \<open>
  What the calls made for one collection must be: they start with the index on
  \<^verbatim>\<open>_source_file\<close>, concern this collection only, and are exactly the expected calls
  when the store answers all of them.
\<close>

definition index_segment :: "environment \<Rightarrow> string \<Rightarrow> event list \<Rightarrow> bool" where
  "index_segment env c seg =
     ((\<exists>evs. seg = CreateIndex c (IdxField ''_source_file'') # evs) \<and>
      (\<forall>ev\<in>set seg. (\<exists>s. ev = CreateIndex c s) \<or> ev = FindOne c) \<and>
      (\<forall>sample.
         (\<forall>h s. create_index_result env h c s = None) \<and>
         (\<forall>h. find_one_result env h c = Inr sample) \<longrightarrow>
         seg = index_calls_expected c sample))"

section \<open>The loop of the batch accumulator, step by step\<close>

lemma execute_batch_cases:
  assumes "execute_batch env tr c b = (tr', r)"
  shows "tr' = tr @ [InsertMany c b] \<and> (r = Inr () \<or> r = Inl KeyboardInterrupt)"
proof (cases "insert_many_result env tr c b")
  case None
  with assms show ?thesis by (simp add: execute_batch_def)
next
  case (Some e)
  with assms show ?thesis by (cases e) (auto simp add: execute_batch_def)
qed

lemma truthy_cases: "truthy v \<Longrightarrow> (\<exists>d. v = JObj d \<and> d \<noteq> []) \<or> (\<forall>k x. set_item v k x = Inl TypeError)"
  by (cases v) auto

lemma process_entry_raise:
  "load_json_fast self f = Inl e \<Longrightarrow>
   process_entry env self c folder bs f batch st tr = (tr, Inl e)"
  by (simp add: process_entry_def)

lemma process_entry_falsy:
  "load_json_fast self f = Inr v \<Longrightarrow> \<not> truthy v \<Longrightarrow>
   process_entry env self c folder bs f batch st tr =
     (tr, Inr (batch, st\<lparr>failed_files := failed_files st + 1\<rparr>))"
  by (simp add: process_entry_def)

lemma process_entry_not_dict:
  "load_json_fast self f = Inr v \<Longrightarrow> truthy v \<Longrightarrow> \<forall>k x. set_item v k x = Inl TypeError \<Longrightarrow>
   process_entry env self c folder bs f batch st tr = (tr, Inl TypeError)"
  by (simp add: process_entry_def)

lemma process_entry_dict:
  "load_json_fast self f = Inr (JObj d) \<Longrightarrow> d \<noteq> [] \<Longrightarrow>
   process_entry env self c folder bs f batch st tr =
     (if bs \<le> int (length batch) + 1 then
        (case execute_batch env tr c (batch @ [add_metadata folder f d]) of
           (tr', Inl e) \<Rightarrow> (tr', Inl e)
         | (tr', Inr u) \<Rightarrow>
             (tr', Inr ([], st\<lparr>loaded_files := loaded_files st + 1,
                                 batch_count := batch_count st + 1\<rparr>)))
      else (tr, Inr (batch @ [add_metadata folder f d], st\<lparr>loaded_files := loaded_files st + 1\<rparr>)))"
  by (simp add: process_entry_def add_metadata_def Let_def split: prod.splits sum.splits)


lemma process_entry_cases:
  assumes "process_entry env self c folder bs f batch st tr = (tr', r)"
  shows "(\<exists>e. r = Inl e \<and> tr' = tr)
    \<or> (r = Inr (batch, st\<lparr>failed_files := failed_files st + 1\<rparr>) \<and> tr' = tr)
    \<or> (\<exists>d. load_json_fast self f = Inr (JObj d) \<and> d \<noteq> [] \<and>
          (int (length batch) + 1 < bs \<and> tr' = tr \<and>
             r = Inr (batch @ [add_metadata folder f d], st\<lparr>loaded_files := loaded_files st + 1\<rparr>)
         \<or> bs \<le> int (length batch) + 1 \<and>
             tr' = tr @ [InsertMany c (batch @ [add_metadata folder f d])] \<and>
             (r = Inr ([], st\<lparr>loaded_files := loaded_files st + 1,
                                batch_count := batch_count st + 1\<rparr>)
              \<or> r = Inl KeyboardInterrupt)))"
proof (cases "load_json_fast self f")
  case (Inl e)
  from assms process_entry_raise[OF Inl] show ?thesis by auto
next
  case (Inr v)
  show ?thesis
  proof (cases "truthy v")
    case False
    from assms process_entry_falsy[OF Inr False] show ?thesis by auto
  next
    case True
    from truthy_cases[OF True] show ?thesis
    proof
      assume "\<exists>d. v = JObj d \<and> d \<noteq> []"
      then obtain d where d: "v = JObj d" "d \<noteq> []" by blast
      from Inr d have ld: "load_json_fast self f = Inr (JObj d)" by simp
      note eq = process_entry_dict[OF ld d(2), of env c folder bs batch st tr]
      show ?thesis
      proof (cases "bs \<le> int (length batch) + 1")
        case False
        with eq assms ld d(2) show ?thesis by auto
      next
        case True
        obtain t x where ex: "execute_batch env tr c (batch @ [add_metadata folder f d]) = (t, x)"
          by (cases "execute_batch env tr c (batch @ [add_metadata folder f d])")
        from execute_batch_cases[OF ex] have t: "t = tr @ [InsertMany c (batch @ [add_metadata folder f d])]"
          and x: "x = Inr () \<or> x = Inl KeyboardInterrupt" by simp_all
        from x show ?thesis
        proof
          assume "x = Inr ()"
          with eq assms True ex t ld d(2) show ?thesis by auto
        next
          assume "x = Inl KeyboardInterrupt"
          with eq assms True ex t ld d(2) show ?thesis by auto
        qed
      qed
    next
      assume a: "\<forall>k x. set_item v k x = Inl TypeError"
      from assms process_entry_not_dict[OF Inr True a] show ?thesis by auto
    qed
  qed
qed


lemma process_entry_elim:
  assumes "process_entry env self c folder bs f batch st tr = (tr', r)"
  obtains (raise) e where "r = Inl e" "tr' = tr"
  | (failed) "r = Inr (batch, st\<lparr>failed_files := failed_files st + 1\<rparr>)" "tr' = tr"
  | (append) d where "load_json_fast self f = Inr (JObj d)" "d \<noteq> []"
      "int (length batch) + 1 < bs" "tr' = tr"
      "r = Inr (batch @ [add_metadata folder f d], st\<lparr>loaded_files := loaded_files st + 1\<rparr>)"
  | (flush) d where "load_json_fast self f = Inr (JObj d)" "d \<noteq> []"
      "bs \<le> int (length batch) + 1" "tr' = tr @ [InsertMany c (batch @ [add_metadata folder f d])]"
      "r = Inr ([], st\<lparr>loaded_files := loaded_files st + 1, batch_count := batch_count st + 1\<rparr>)"
  | (interrupt) d where "load_json_fast self f = Inr (JObj d)" "d \<noteq> []"
      "bs \<le> int (length batch) + 1" "tr' = tr @ [InsertMany c (batch @ [add_metadata folder f d])]"
      "r = Inl KeyboardInterrupt"
  using process_entry_cases[OF assms] by blast

lemma process_entry_counts:
  assumes "process_entry env self c folder bs f batch st tr = (t1, r1)"
  shows "\<exists>bl. t1 = tr @ map (InsertMany c) bl \<and>
           (\<forall>b1 s1. r1 = Inr (b1, s1) \<longrightarrow>
              batch_count s1 = batch_count st + length bl \<and>
              loaded_files s1 + failed_files s1 = Suc (loaded_files st + failed_files st) \<and>
              total_files s1 = total_files st)"
  using assms
proof (cases rule: process_entry_elim)
  case (raise e)
  then show ?thesis by (intro exI[of _ "[]"]) simp
next
  case failed
  then show ?thesis by (intro exI[of _ "[]"]) simp
next
  case (append d)
  then show ?thesis by (intro exI[of _ "[]"]) simp
next
  case (flush d)
  then show ?thesis by (intro exI[of _ "[batch @ [add_metadata folder f d]]"]) simp
next
  case (interrupt d)
  then show ?thesis by (intro exI[of _ "[batch @ [add_metadata folder f d]]"]) simp
qed


lemma process_files_counts:
  assumes "process_files env self c folder bs files batch st tr = (tr', r)"
  shows "\<exists>bl. tr' = tr @ map (InsertMany c) bl \<and>
           (\<forall>b1 s1. r = Inr (b1, s1) \<longrightarrow>
              batch_count s1 = batch_count st + length bl \<and>
              loaded_files s1 + failed_files s1 = loaded_files st + failed_files st + length files \<and>
              total_files s1 = total_files st)"
  using assms
proof (induction files arbitrary: batch st tr)
  case Nil
  then show ?case by (intro exI[of _ "[]"]) auto
next
  case (Cons f fs)
  obtain t1 r1 where pe: "process_entry env self c folder bs f batch st tr = (t1, r1)"
    by (cases "process_entry env self c folder bs f batch st tr")
  from process_entry_counts[OF pe] obtain bl1 where
    t1: "t1 = tr @ map (InsertMany c) bl1" and
    c1: "\<forall>b1 s1. r1 = Inr (b1, s1) \<longrightarrow>
              batch_count s1 = batch_count st + length bl1 \<and>
              loaded_files s1 + failed_files s1 = Suc (loaded_files st + failed_files st) \<and>
              total_files s1 = total_files st" by blast
  show ?case
  proof (cases r1)
    case (Inl e)
    with Cons.prems pe have "tr' = t1" "r = Inl e" by simp_all
    with t1 show ?thesis by (intro exI[of _ bl1]) simp
  next
    case (Inr p)
    obtain b1 s1 where p: "p = (b1, s1)" by (cases p)
    from Cons.prems pe Inr p
    have rec: "process_files env self c folder bs fs b1 s1 t1 = (tr', r)" by simp
    from Cons.IH[OF rec] obtain bl2 where
      t2: "tr' = t1 @ map (InsertMany c) bl2" and
      c2: "\<forall>b2 s2. r = Inr (b2, s2) \<longrightarrow>
              batch_count s2 = batch_count s1 + length bl2 \<and>
              loaded_files s2 + failed_files s2 = loaded_files s1 + failed_files s1 + length fs \<and>
              total_files s2 = total_files s1" by blast
    from c1 Inr p have c1': "batch_count s1 = batch_count st + length bl1"
      "loaded_files s1 + failed_files s1 = Suc (loaded_files st + failed_files st)"
      "total_files s1 = total_files st" by simp_all
    have "tr' = tr @ map (InsertMany c) (bl1 @ bl2)" using t1 t2 by simp
    moreover have "\<forall>b2 s2. r = Inr (b2, s2) \<longrightarrow>
              batch_count s2 = batch_count st + length (bl1 @ bl2) \<and>
              loaded_files s2 + failed_files s2 = loaded_files st + failed_files st + length (f # fs) \<and>
              total_files s2 = total_files st"
    proof (intro allI impI)
      fix b2 s2
      assume "r = Inr (b2, s2)"
      with c2 have e: "batch_count s2 = batch_count s1 + length bl2"
        "loaded_files s2 + failed_files s2 = loaded_files s1 + failed_files s1 + length fs"
        "total_files s2 = total_files s1" by blast+
      have "batch_count s2 = batch_count st + length (bl1 @ bl2)"
        using e(1) c1'(1) by (simp only: length_append)
      moreover have "loaded_files s2 + failed_files s2 =
          loaded_files st + failed_files st + length (f # fs)"
        using e(2) c1'(2) by (simp only: list.size add_Suc_right add_Suc add_0_right One_nat_def)
      moreover have "total_files s2 = total_files st"
        using e(3) c1'(3) by (rule trans)
      ultimately show "batch_count s2 = batch_count st + length (bl1 @ bl2) \<and>
              loaded_files s2 + failed_files s2 = loaded_files st + failed_files st + length (f # fs) \<and>
              total_files s2 = total_files st" by blast
    qed
    ultimately show ?thesis by blast
  qed
qed


lemma batches_append: "batches (xs @ ys) = batches xs @ batches ys"
  by (induction xs rule: batches.induct) simp_all

lemma batches_InsertMany: "batches (map (InsertMany c) bl) = map (Pair c) bl"
  by (induction bl) simp_all

lemma process_folder_elim:
  assumes "process_folder env self tr folder files bs = (tr', r)"
  obtains (no_db) "db self = None" "tr' = tr" "r = Inl RuntimeError"
  | (raised) e where
      "process_files env self (collection_name_of folder) folder bs files []
         (initial_stats files) tr = (tr', Inl e)" "r = Inl e"
  | (even) s1 where
      "process_files env self (collection_name_of folder) folder bs files []
         (initial_stats files) tr = (tr', Inr ([], s1))" "r = Inr s1"
  | (last) t1 batch s1 where
      "process_files env self (collection_name_of folder) folder bs files []
         (initial_stats files) tr = (t1, Inr (batch, s1))" "batch \<noteq> []"
      "tr' = t1 @ [InsertMany (collection_name_of folder) batch]"
      "r = Inr (s1\<lparr>batch_count := batch_count s1 + 1\<rparr>) \<or> r = Inl KeyboardInterrupt"
proof (cases "db self")
  case None
  with assms have "tr' = tr" "r = Inl RuntimeError" by (simp_all add: process_folder_def)
  with None show thesis by (rule no_db)
next
  case (Some dbn)
  obtain t1 r1 where pf: "process_files env self (collection_name_of folder) folder bs files []
         (initial_stats files) tr = (t1, r1)"
    by (cases "process_files env self (collection_name_of folder) folder bs files []
         (initial_stats files) tr")
  show thesis
  proof (cases r1)
    case (Inl e)
    with assms Some pf have "tr' = t1" "r = Inl e"
      by (simp_all add: process_folder_def initial_stats_def)
    with pf Inl show thesis by (intro raised[of e]) simp_all
  next
    case (Inr p)
    obtain batch s1 where p: "p = (batch, s1)" by (cases p)
    show thesis
    proof (cases "batch = []")
      case True
      with assms Some pf Inr p have "tr' = t1" "r = Inr s1"
        by (simp_all add: process_folder_def initial_stats_def)
      with pf Inr p True show thesis by (intro even[of s1]) simp_all
    next
      case False
      obtain t2 x where ex: "execute_batch env t1 (collection_name_of folder) batch = (t2, x)"
        by (cases "execute_batch env t1 (collection_name_of folder) batch")
      from execute_batch_cases[OF ex]
      have t2: "t2 = t1 @ [InsertMany (collection_name_of folder) batch]"
        and x: "x = Inr () \<or> x = Inl KeyboardInterrupt" by simp_all
      from assms Some pf Inr p False ex
      have "tr' = t2" and
        "r = (case x of Inl e \<Rightarrow> Inl e | Inr u \<Rightarrow> Inr (s1\<lparr>batch_count := batch_count s1 + 1\<rparr>))"
        by (simp_all add: process_folder_def initial_stats_def split: sum.splits)
      with x t2 have "tr' = t1 @ [InsertMany (collection_name_of folder) batch]"
        "r = Inr (s1\<lparr>batch_count := batch_count s1 + 1\<rparr>) \<or> r = Inl KeyboardInterrupt"
        by auto
      with pf Inr p False show thesis by (intro last[of t1 batch s1]) simp_all
    qed
  qed
qed

lemma demo_collection: "collection_name_of ''Ventas 2024'' = ''ventas_2024''"
  by code_simp

lemma process_entry_sizes:
  assumes "process_entry env self c folder bs f batch st tr = (t1, r1)"
    and "0 < bs" and "int (length batch) < bs"
  shows "\<exists>bl. t1 = tr @ map (InsertMany c) bl \<and>
           (\<forall>b\<in>set bl. int (length b) = bs) \<and>
           (\<forall>b1 s1. r1 = Inr (b1, s1) \<longrightarrow> int (length b1) < bs)"
  using assms(1)
proof (cases rule: process_entry_elim)
  case (raise e)
  then show ?thesis by (intro exI[of _ "[]"]) simp
next
  case failed
  with assms(3) show ?thesis by (intro exI[of _ "[]"]) simp
next
  case (append d)
  then show ?thesis by (intro exI[of _ "[]"]) simp
next
  case (flush d)
  with assms(2,3) show ?thesis by (intro exI[of _ "[batch @ [add_metadata folder f d]]"]) simp
next
  case (interrupt d)
  with assms(2,3) show ?thesis by (intro exI[of _ "[batch @ [add_metadata folder f d]]"]) simp
qed

lemma process_files_sizes:
  assumes "process_files env self c folder bs files batch st tr = (tr', r)"
    and "0 < bs" and "int (length batch) < bs"
  shows "\<exists>bl. tr' = tr @ map (InsertMany c) bl \<and>
           (\<forall>b\<in>set bl. int (length b) = bs) \<and>
           (\<forall>b1 s1. r = Inr (b1, s1) \<longrightarrow> int (length b1) < bs)"
  using assms(1,3)
proof (induction files arbitrary: batch st tr)
  case Nil
  then show ?case by (intro exI[of _ "[]"]) auto
next
  case (Cons f fs)
  obtain t1 r1 where pe: "process_entry env self c folder bs f batch st tr = (t1, r1)"
    by (cases "process_entry env self c folder bs f batch st tr")
  from process_entry_sizes[OF pe assms(2) Cons.prems(2)] obtain bl1 where
    t1: "t1 = tr @ map (InsertMany c) bl1" and
    s1: "\<forall>b\<in>set bl1. int (length b) = bs" and
    n1: "\<forall>b1 s1. r1 = Inr (b1, s1) \<longrightarrow> int (length b1) < bs" by blast
  show ?case
  proof (cases r1)
    case (Inl e)
    with Cons.prems(1) pe have "tr' = t1" "r = Inl e" by simp_all
    with t1 s1 show ?thesis by (intro exI[of _ bl1]) simp
  next
    case (Inr p)
    obtain b1 st1 where p: "p = (b1, st1)" by (cases p)
    from Cons.prems(1) pe Inr p
    have rec: "process_files env self c folder bs fs b1 st1 t1 = (tr', r)" by simp
    from n1 Inr p have "int (length b1) < bs" by simp
    from Cons.IH[OF rec this] obtain bl2 where
      t2: "tr' = t1 @ map (InsertMany c) bl2" and
      s2: "\<forall>b\<in>set bl2. int (length b) = bs" and
      n2: "\<forall>b1 s1. r = Inr (b1, s1) \<longrightarrow> int (length b1) < bs" by blast
    have "tr' = tr @ map (InsertMany c) (bl1 @ bl2)" using t1 t2 by simp
    moreover have "\<forall>b\<in>set (bl1 @ bl2). int (length b) = bs" using s1 s2 by auto
    ultimately show ?thesis using n2 by blast
  qed
qed

lemma demo_run:
  "process_folder demo_env demo_loader [] ''Ventas 2024''
     [''Ventas 2024/f1.json'', ''roto.json'', ''ventas_2024/f2.json'', ''suelto.json''] 2 =
     ([InsertMany ''ventas_2024''
         [add_metadata ''Ventas 2024'' ''Ventas 2024/f1.json'' [(''factura_num'', JInt 1)],
          add_metadata ''Ventas 2024'' ''ventas_2024/f2.json''
            [(''_source_file'', JStr ''otro''), (''total'', JInt 5)]],
       InsertMany ''ventas_2024''
         [add_metadata ''Ventas 2024'' ''suelto.json'' [(''fecha_hora'', JStr ''2025-09-25'')]]],
      Inr \<lparr>total_files = 4, loaded_files = 3, failed_files = 1, batch_count = 2\<rparr>)"
  by (simp add: process_folder_def process_entry_def load_json_fast_def execute_batch_def
      demo_env_def demo_loader_def demo_archive_def add_metadata_def demo_collection Let_def)

lemma dict_get_set_same: "dict_get (dict_set k v d) k = Some v"
  by (induction d) (auto simp add: dict_get_def)

lemma dict_get_set_other: "k' \<noteq> k \<Longrightarrow> dict_get (dict_set k' v d) k = dict_get d k"
  by (induction d) (auto simp add: dict_get_def)

lemma produced_by_mono: "produced_by self folder F doc \<Longrightarrow> F \<subseteq> G \<Longrightarrow> produced_by self folder G doc"
  unfolding produced_by_def by blast

lemma process_entry_docs:
  assumes "process_entry env self c folder bs f batch st tr = (t1, r1)"
    and "\<forall>doc\<in>set batch. produced_by self folder F doc"
  shows "\<exists>bl. t1 = tr @ map (InsertMany c) bl \<and>
           (\<forall>b\<in>set bl. \<forall>doc\<in>set b. produced_by self folder (insert f F) doc) \<and>
           (\<forall>b1 s1. r1 = Inr (b1, s1) \<longrightarrow>
              (\<forall>doc\<in>set b1. produced_by self folder (insert f F) doc))"
proof -
  have old: "\<forall>doc\<in>set batch. produced_by self folder (insert f F) doc"
    using assms(2) produced_by_mono by blast
  have new: "\<And>d. load_json_fast self f = Inr (JObj d) \<Longrightarrow>
      \<forall>doc\<in>set (batch @ [add_metadata folder f d]). produced_by self folder (insert f F) doc"
    using old unfolding produced_by_def by auto
  from assms(1) show ?thesis
  proof (cases rule: process_entry_elim)
    case (raise e)
    then show ?thesis by (intro exI[of _ "[]"]) simp
  next
    case failed
    with old show ?thesis by (intro exI[of _ "[]"]) simp
  next
    case (append d)
    with new[OF append(1)] show ?thesis by (intro exI[of _ "[]"]) simp
  next
    case (flush d)
    with new[OF flush(1)] show ?thesis
      by (intro exI[of _ "[batch @ [add_metadata folder f d]]"]) simp
  next
    case (interrupt d)
    with new[OF interrupt(1)] show ?thesis
      by (intro exI[of _ "[batch @ [add_metadata folder f d]]"]) simp
  qed
qed

lemma process_files_docs:
  assumes "process_files env self c folder bs files batch st tr = (tr', r)"
    and "\<forall>doc\<in>set batch. produced_by self folder F doc"
  shows "\<exists>bl. tr' = tr @ map (InsertMany c) bl \<and>
           (\<forall>b\<in>set bl. \<forall>doc\<in>set b. produced_by self folder (F \<union> set files) doc) \<and>
           (\<forall>b1 s1. r = Inr (b1, s1) \<longrightarrow>
              (\<forall>doc\<in>set b1. produced_by self folder (F \<union> set files) doc))"
  using assms
proof (induction files arbitrary: batch st tr F)
  case Nil
  then show ?case by (intro exI[of _ "[]"]) auto
next
  case (Cons f fs)
  obtain t1 r1 where pe: "process_entry env self c folder bs f batch st tr = (t1, r1)"
    by (cases "process_entry env self c folder bs f batch st tr")
  from process_entry_docs[OF pe Cons.prems(2)] obtain bl1 where
    t1: "t1 = tr @ map (InsertMany c) bl1" and
    d1: "\<forall>b\<in>set bl1. \<forall>doc\<in>set b. produced_by self folder (insert f F) doc" and
    n1: "\<forall>b1 s1. r1 = Inr (b1, s1) \<longrightarrow>
              (\<forall>doc\<in>set b1. produced_by self folder (insert f F) doc)" by blast
  have sub: "insert f F \<subseteq> F \<union> set (f # fs)" by auto
  have eq: "insert f F \<union> set fs = F \<union> set (f # fs)" by auto
  from d1 sub have d1': "\<forall>b\<in>set bl1. \<forall>doc\<in>set b. produced_by self folder (F \<union> set (f # fs)) doc"
    using produced_by_mono by blast
  show ?case
  proof (cases r1)
    case (Inl e)
    with Cons.prems(1) pe have "tr' = t1" "r = Inl e" by simp_all
    with t1 d1' show ?thesis by (intro exI[of _ bl1]) simp
  next
    case (Inr p)
    obtain b1 st1 where p: "p = (b1, st1)" by (cases p)
    from Cons.prems(1) pe Inr p
    have rec: "process_files env self c folder bs fs b1 st1 t1 = (tr', r)" by simp
    from n1 Inr p have "\<forall>doc\<in>set b1. produced_by self folder (insert f F) doc" by simp
    from Cons.IH[OF rec this] eq obtain bl2 where
      t2: "tr' = t1 @ map (InsertMany c) bl2" and
      d2: "\<forall>b\<in>set bl2. \<forall>doc\<in>set b. produced_by self folder (F \<union> set (f # fs)) doc" and
      n2: "\<forall>b1 s1. r = Inr (b1, s1) \<longrightarrow>
              (\<forall>doc\<in>set b1. produced_by self folder (F \<union> set (f # fs)) doc)" by auto
    have "tr' = tr @ map (InsertMany c) (bl1 @ bl2)" using t1 t2 by simp
    moreover have "\<forall>b\<in>set (bl1 @ bl2). \<forall>doc\<in>set b. produced_by self folder (F \<union> set (f # fs)) doc"
      using d1' d2 by auto
    ultimately show ?thesis using n2 by blast
  qed
qed

lemma process_folder_docs:
  assumes "process_folder env self tr folder files bs = (tr', r)"
  shows "\<exists>bl. tr' = tr @ map (InsertMany (collection_name_of folder)) bl \<and>
           (\<forall>b\<in>set bl. \<forall>doc\<in>set b. produced_by self folder (set files) doc)"
proof -
  have e: "\<forall>doc\<in>set ([]::json list). produced_by self folder {} doc" by simp
  from assms show ?thesis
  proof (cases rule: process_folder_elim)
    case no_db
    then show ?thesis by (intro exI[of _ "[]"]) simp
  next
    case (raised x)
    from process_files_docs[OF raised(1) e] show ?thesis by auto
  next
    case (even s1)
    from process_files_docs[OF even(1) e] show ?thesis by auto
  next
    case (last t1 batch s1)
    from process_files_docs[OF last(1) e] obtain bl where
      bl: "t1 = tr @ map (InsertMany (collection_name_of folder)) bl"
      "\<forall>b\<in>set bl. \<forall>doc\<in>set b. produced_by self folder (set files) doc"
      "\<forall>doc\<in>set batch. produced_by self folder (set files) doc" by auto
    have "tr' = tr @ map (InsertMany (collection_name_of folder)) (bl @ [batch])"
      using bl(1) last(3) by simp
    moreover have "\<forall>b\<in>set (bl @ [batch]). \<forall>doc\<in>set b. produced_by self folder (set files) doc"
      using bl(2,3) by auto
    ultimately show ?thesis by blast
  qed
qed

lemma execute_batch_ok:
  assumes "insert_many_result env tr c b \<noteq> Some KeyboardInterrupt"
  shows "execute_batch env tr c b = (tr @ [InsertMany c b], Inr ())"
proof (cases "insert_many_result env tr c b")
  case None
  then show ?thesis by (simp add: execute_batch_def)
next
  case (Some e)
  with assms show ?thesis by (cases e) (simp_all add: execute_batch_def)
qed

lemma process_files_wellformed:
  assumes "\<forall>f\<in>set files. \<exists>d. load_json_fast self f = Inr (JObj d) \<and> d \<noteq> []"
    and store: "\<forall>h c b. insert_many_result env h c b \<noteq> Some KeyboardInterrupt"
    and n: "0 < n" and "length batch < n"
  shows "\<exists>bl b1 s1.
           process_files env self c folder (int n) files batch st tr =
             (tr @ map (InsertMany c) bl, Inr (b1, s1)) \<and>
           map length bl = replicate ((length batch + length files) div n) n \<and>
           length b1 = (length batch + length files) mod n \<and>
           loaded_files s1 = loaded_files st + length files \<and>
           failed_files s1 = failed_files st"
  using assms(1,4)
proof (induction files arbitrary: batch st tr)
  case Nil
  then show ?case by (intro exI[of _ "[]"] exI[of _ batch] exI[of _ st]) simp
next
  case (Cons f fs)
  from Cons.prems(1) obtain d where ld: "load_json_fast self f = Inr (JObj d)" and dne: "d \<noteq> []"
    by auto
  from Cons.prems(1) have wf: "\<forall>f\<in>set fs. \<exists>d. load_json_fast self f = Inr (JObj d) \<and> d \<noteq> []"
    by simp
  let ?B = "batch @ [add_metadata folder f d]"
  let ?st = "st\<lparr>loaded_files := loaded_files st + 1\<rparr>"
  note eq = process_entry_dict[OF ld dne, of env c folder "int n" batch st tr]
  show ?case
  proof (cases "int n \<le> int (length batch) + 1")
    case True
    with Cons.prems(2) have lenB: "length ?B = n" by simp
    from store have "execute_batch env tr c ?B = (tr @ [InsertMany c ?B], Inr ())"
      by (intro execute_batch_ok) simp
    with eq True have pe: "process_entry env self c folder (int n) f batch st tr =
        (tr @ [InsertMany c ?B], Inr ([], st\<lparr>loaded_files := loaded_files st + 1,
                                 batch_count := batch_count st + 1\<rparr>))" by simp
    from n have "length ([]::json list) < n" by simp
    from Cons.IH[OF wf this, of "st\<lparr>loaded_files := loaded_files st + 1,
                                 batch_count := batch_count st + 1\<rparr>" "tr @ [InsertMany c ?B]"]
    obtain bl b1 s1 where ih:
      "process_files env self c folder (int n) fs [] (st\<lparr>loaded_files := loaded_files st + 1,
                                 batch_count := batch_count st + 1\<rparr>) (tr @ [InsertMany c ?B]) =
         ((tr @ [InsertMany c ?B]) @ map (InsertMany c) bl, Inr (b1, s1))"
      "map length bl = replicate (length fs div n) n"
      "length b1 = length fs mod n"
      "loaded_files s1 = loaded_files st + 1 + length fs"
      "failed_files s1 = failed_files st" by auto
    from lenB have tot: "length batch + length (f # fs) = n + length fs" by simp
    have "process_files env self c folder (int n) (f # fs) batch st tr =
        (tr @ map (InsertMany c) (?B # bl), Inr (b1, s1))" using pe ih(1) by simp
    moreover have "map length (?B # bl) = replicate ((length batch + length (f # fs)) div n) n"
      using ih(2) lenB n unfolding tot by simp
    moreover have "length b1 = (length batch + length (f # fs)) mod n"
      using ih(3) unfolding tot by simp
    moreover have "loaded_files s1 = loaded_files st + length (f # fs)" using ih(4) by simp
    ultimately show ?thesis using ih(5) by blast
  next
    case False
    then have lenB: "length ?B < n" by simp
    from eq False have pe: "process_entry env self c folder (int n) f batch st tr =
        (tr, Inr (?B, ?st))" by simp
    from Cons.IH[OF wf lenB, of ?st tr]
    obtain bl b1 s1 where ih:
      "process_files env self c folder (int n) fs ?B ?st tr =
         (tr @ map (InsertMany c) bl, Inr (b1, s1))"
      "map length bl = replicate ((length ?B + length fs) div n) n"
      "length b1 = (length ?B + length fs) mod n"
      "loaded_files s1 = loaded_files ?st + length fs"
      "failed_files s1 = failed_files ?st" by blast
    have tot: "length ?B + length fs = length batch + length (f # fs)" by simp
    have "process_files env self c folder (int n) (f # fs) batch st tr =
        (tr @ map (InsertMany c) bl, Inr (b1, s1))" using pe ih(1) by simp
    moreover have "map length bl = replicate ((length batch + length (f # fs)) div n) n"
      using ih(2) unfolding tot .
    moreover have "length b1 = (length batch + length (f # fs)) mod n"
      using ih(3) unfolding tot .
    moreover have "loaded_files s1 = loaded_files st + length (f # fs)" using ih(4) by simp
    moreover have "failed_files s1 = failed_files st" using ih(5) by simp
    ultimately show ?thesis by blast
  qed
qed

lemma process_folder_wellformed:
  assumes "db self = Some dbn"
    and "\<forall>h c b. insert_many_result env h c b \<noteq> Some KeyboardInterrupt"
    and "\<forall>f\<in>set files. \<exists>d. load_json_fast self f = Inr (JObj d) \<and> d \<noteq> []"
    and "0 < n"
    and "process_folder env self tr folder files (int n) = (tr', r)"
  shows "map (length \<circ> snd) (batches (drop (length tr) tr')) =
           replicate (length files div n) n @
           (if length files mod n = 0 then [] else [length files mod n]) \<and>
         (\<exists>st. r = Inr st \<and> loaded_files st = length files \<and> failed_files st = 0)"
proof -
  let ?c = "collection_name_of folder"
  from assms(4) have "length ([]::json list) < n" by simp
  from process_files_wellformed[OF assms(3) assms(2) assms(4) this, of ?c folder "initial_stats files" tr]
  obtain bl b1 s1 where pf:
    "process_files env self ?c folder (int n) files [] (initial_stats files) tr =
       (tr @ map (InsertMany ?c) bl, Inr (b1, s1))"
    "map length bl = replicate (length files div n) n"
    "length b1 = length files mod n"
    "loaded_files s1 = length files" "failed_files s1 = 0"
    by (auto simp add: initial_stats_def)
  show ?thesis
  proof (cases "b1 = []")
    case True
    with assms(1,5) pf(1) have "tr' = tr @ map (InsertMany ?c) bl" "r = Inr s1"
      by (simp_all add: process_folder_def initial_stats_def Let_def)
    with pf True show ?thesis by (simp add: batches_InsertMany comp_def)
  next
    case False
    from assms(2) have "execute_batch env (tr @ map (InsertMany ?c) bl) ?c b1 =
        ((tr @ map (InsertMany ?c) bl) @ [InsertMany ?c b1], Inr ())"
      by (intro execute_batch_ok) simp
    with assms(1,5) pf(1) False
    have "tr' = tr @ map (InsertMany ?c) (bl @ [b1])"
      "r = Inr (s1\<lparr>batch_count := batch_count s1 + 1\<rparr>)"
      by (simp_all add: process_folder_def initial_stats_def Let_def)
    moreover from False have "length b1 \<noteq> 0" by simp
    then have "length files mod n \<noteq> 0" unfolding pf(3) .
    ultimately show ?thesis using pf
      by (simp add: batches_InsertMany batches_append comp_def)
  qed
qed

lemma lower_char_id: "\<not> (65 \<le> (of_char c :: nat) \<and> (of_char c :: nat) \<le> 90) \<Longrightarrow> lower_char c = c"
  by (auto simp add: lower_char_def Let_def)

lemma collection_name_of_map:
  "collection_name_of s = map (\<lambda>c. lower_char (if c = CHR '' '' then CHR ''_'' else c)) s"
  by (simp add: collection_name_of_def py_lower_def replace_char_def)

lemma sample_has_present:
  "sample_has sample key = (case sample of None \<Rightarrow> False | Some d \<Rightarrow> dict_contains key d)"
  by (cases sample) (auto simp add: sample_has_def dict_contains_def)

lemma index_collection_success:
  assumes "\<forall>h s. create_index_result env h c s = None"
    and "\<forall>h. find_one_result env h c = Inr sample"
  shows "index_collection env tr c = (tr @ index_calls_expected c sample, Inr ())"
  using assms
  by (simp add: index_collection_def create_index_def find_one_def index_calls_expected_def
      sample_has_present)

lemma index_collection_attempt:
  assumes "index_collection env tr c = (tr', r)"
  shows "\<exists>evs. tr' = tr @ CreateIndex c (IdxField ''_source_file'') # evs"
  using assms
  by (auto simp add: index_collection_def create_index_def find_one_def
      split: option.splits sum.splits if_splits)

lemma index_collection_exception:
  assumes "index_collection env tr c = (tr', Inl e)"
  shows "(\<exists>h s. create_index_result env h c s = Some e) \<or> (\<exists>h. find_one_result env h c = Inl e)"
  using assms
  by (auto simp add: index_collection_def create_index_def find_one_def
      split: option.splits sum.splits if_splits)

lemma index_collection_events:
  assumes "index_collection env tr c = (tr', r)"
  shows "\<exists>seg. tr' = tr @ seg \<and> (\<forall>ev\<in>set seg. (\<exists>s. ev = CreateIndex c s) \<or> ev = FindOne c)"
  using assms
  by (auto simp add: index_collection_def create_index_def find_one_def
      split: option.splits sum.splits if_splits)

lemma index_collection_segment:
  assumes "index_collection env tr c = (tr', r)"
  shows "\<exists>seg. tr' = tr @ seg \<and> index_segment env c seg"
proof -
  from index_collection_events[OF assms] obtain seg where
    seg: "tr' = tr @ seg" and
    own: "\<forall>ev\<in>set seg. (\<exists>s. ev = CreateIndex c s) \<or> ev = FindOne c" by blast
  from index_collection_attempt[OF assms] seg
  have first: "\<exists>evs. seg = CreateIndex c (IdxField ''_source_file'') # evs" by simp
  have exact: "\<forall>sample.
         (\<forall>h s. create_index_result env h c s = None) \<and>
         (\<forall>h. find_one_result env h c = Inr sample) \<longrightarrow>
         seg = index_calls_expected c sample"
  proof (intro allI impI)
    fix sample
    assume good: "(\<forall>h s. create_index_result env h c s = None) \<and>
         (\<forall>h. find_one_result env h c = Inr sample)"
    then have "index_collection env tr c = (tr @ index_calls_expected c sample, Inr ())"
      by (intro index_collection_success) simp_all
    with assms seg show "seg = index_calls_expected c sample" by simp
  qed
  from seg first own exact show ?thesis unfolding index_segment_def by blast
qed

lemma index_collections_segments:
  assumes "\<forall>h c s. create_index_result env h c s \<noteq> Some KeyboardInterrupt"
    and "\<forall>h c. find_one_result env h c \<noteq> Inl KeyboardInterrupt"
  shows "\<exists>segs. length segs = length cs \<and>
           index_collections env tr cs = (tr @ concat segs, Inr ()) \<and>
           (\<forall>i<length cs. index_segment env (cs ! i) (segs ! i))"
proof (induction cs arbitrary: tr)
  case Nil
  show ?case by simp
next
  case (Cons c cs)
  obtain t1 r1 where ic: "index_collection env tr c = (t1, r1)"
    by (cases "index_collection env tr c")
  from index_collection_segment[OF ic] obtain seg where
    t1: "t1 = tr @ seg" and ok: "index_segment env c seg" by blast
  have "r1 = Inr () \<or> (\<exists>e. r1 = Inl e \<and> is_Exception e)"
  proof (cases r1)
    case (Inl e)
    with ic index_collection_exception[of env tr c t1 e] assms have "e \<noteq> KeyboardInterrupt"
      by metis
    then have "is_Exception e" by (cases e) simp_all
    with Inl show ?thesis by simp
  next
    case (Inr u)
    then show ?thesis by simp
  qed
  with ic have step: "index_collections env tr (c # cs) = index_collections env t1 cs"
    by auto
  from Cons.IH[of t1] obtain segs where
    len: "length segs = length cs" and
    r: "index_collections env t1 cs = (t1 @ concat segs, Inr ())" and
    all: "\<forall>i<length cs. index_segment env (cs ! i) (segs ! i)" by blast
  have "length (seg # segs) = length (c # cs)" using len by simp
  moreover have "index_collections env tr (c # cs) = (tr @ concat (seg # segs), Inr ())"
    using step r t1 by simp
  moreover have "\<forall>i<length (c # cs). index_segment env ((c # cs) ! i) ((seg # segs) ! i)"
  proof (intro allI impI)
    fix i
    assume i: "i < length (c # cs)"
    show "index_segment env ((c # cs) ! i) ((seg # segs) ! i)"
    proof (cases i)
      case 0
      with ok show ?thesis by simp
    next
      case (Suc j)
      with i all show ?thesis by simp
    qed
  qed
  ultimately show ?case by blast
qed


section \<open>Claims\<close>

text \<open>
  C9. When \<^verbatim>\<open>process_folder\<close> returns, its statistics add up: loaded plus failed is the
  total, the total is the length of the entry list, and \<^verbatim>\<open>batch_count\<close> is the number
  of calls of \<^verbatim>\<open>execute_batch\<close> made for the partition. This holds for every batch size.
\<close>

theorem process_folder_statistics:
  assumes "process_folder env self tr folder_name file_list batch_size = (tr', Inr st)"
  shows "loaded_files st + failed_files st = total_files st \<and>
         total_files st = length file_list \<and>
         batch_count st = length (batches (drop (length tr) tr'))"
  using assms
proof (cases rule: process_folder_elim)
  case no_db
  then show ?thesis by simp
next
  case (raised e)
  then show ?thesis by simp
next
  case (even s1)
  from process_files_counts[OF even(1)] even(2) show ?thesis
    by (auto simp add: initial_stats_def batches_InsertMany)
next
  case (last t1 batch s1)
  from process_files_counts[OF last(1)] last(3,4) show ?thesis
    by (auto simp add: initial_stats_def batches_InsertMany batches_append)
qed

theorem process_folder_statistics_witness:
  "process_folder demo_env demo_loader [] ''Ventas 2024''
     [''Ventas 2024/f1.json'', ''roto.json'', ''ventas_2024/f2.json'', ''suelto.json''] 2 =
     ([InsertMany ''ventas_2024''
         [add_metadata ''Ventas 2024'' ''Ventas 2024/f1.json'' [(''factura_num'', JInt 1)],
          add_metadata ''Ventas 2024'' ''ventas_2024/f2.json''
            [(''_source_file'', JStr ''otro''), (''total'', JInt 5)]],
       InsertMany ''ventas_2024''
         [add_metadata ''Ventas 2024'' ''suelto.json'' [(''fecha_hora'', JStr ''2025-09-25'')]]],
      Inr \<lparr>total_files = 4, loaded_files = 3, failed_files = 1, batch_count = 2\<rparr>) \<and>
   (3::nat) + 1 = 4 \<and> (4::nat) = length [''a'', ''b'', ''c'', ''d''] \<and> (2::nat) = 2"
proof -
  from process_folder_statistics[OF demo_run] demo_run show ?thesis by simp
qed

text \<open>
  C10. Called before the archive is open, \<^verbatim>\<open>load_json_fast\<close> returns \<^verbatim>\<open>None\<close> and does
  not raise; a loader with an open archive returns the same \<^verbatim>\<open>None\<close> for an entry that is
  not JSON.
\<close>

theorem load_json_fast_without_archive:
  assumes "zip_file self = None"
    and "zip_file self' = Some z"
    and "read_json z file_path = Inl JSONDecodeError"
  shows "load_json_fast self file_path = Inr JNull \<and>
         load_json_fast self file_path = load_json_fast self' file_path"
  using assms by (simp add: load_json_fast_def)

theorem load_json_fast_without_archive_witness:
  "load_json_fast (demo_loader\<lparr>zip_file := None\<rparr>) ''roto.json'' = Inr JNull \<and>
   load_json_fast (demo_loader\<lparr>zip_file := None\<rparr>) ''roto.json'' =
     load_json_fast demo_loader ''roto.json''"
proof -
  have a: "zip_file (demo_loader\<lparr>zip_file := None\<rparr>) = None" by simp
  have b: "zip_file demo_loader = Some demo_archive" by (simp add: demo_loader_def)
  have c: "read_json demo_archive ''roto.json'' = Inl JSONDecodeError"
    by (simp add: demo_archive_def)
  from load_json_fast_without_archive[OF a b c] show ?thesis .
qed



text \<open>
  C1. An entry whose bytes are the valid JSON document \<^verbatim>\<open>{}\<close> is decoded by
  \<^verbatim>\<open>load_json_fast\<close>, but the truth test \<^verbatim>\<open>if json_data:\<close> of \<^verbatim>\<open>process_folder\<close> sends
  it to the failed counter and appends nothing; and a valid JSON list makes the assignment
  of the provenance field raise, which ends the partition.
\<close>

theorem valid_json_counted_as_failed:
  "load_json_fast demo_loader ''vacio.json'' = Inr (JObj []) \<and>
   process_folder demo_env demo_loader [] ''Ventas 2024'' [''vacio.json''] 8000 =
     ([], Inr \<lparr>total_files = 1, loaded_files = 0, failed_files = 1, batch_count = 0\<rparr>) \<and>
   load_json_fast demo_loader ''lista.json'' = Inr (JArr [JInt 1]) \<and>
   process_folder demo_env demo_loader [] ''Ventas 2024'' [''lista.json'', ''suelto.json''] 8000 =
     ([], Inl TypeError)"
  by (simp add: process_folder_def process_entry_def load_json_fast_def
      demo_env_def demo_loader_def demo_archive_def)

text \<open>
  C3. With a batch size greater than zero, the calls \<^verbatim>\<open>process_folder\<close> makes are
  bulk writes to the partition's collection; no batch is empty, none is larger than the
  batch size, and every batch but the last has exactly the batch size.
\<close>

theorem process_folder_batch_capacity:
  assumes "0 < batch_size"
    and "process_folder env self tr folder_name file_list batch_size = (tr', r)"
  shows "\<exists>bl. tr' = tr @ map (InsertMany (collection_name_of folder_name)) bl \<and>
           (\<forall>b\<in>set bl. b \<noteq> [] \<and> int (length b) \<le> batch_size) \<and>
           (\<forall>b\<in>set (butlast bl). int (length b) = batch_size)"
proof -
  have e: "int (length ([]::json list)) < batch_size" using assms(1) by simp
  from assms(2) show ?thesis
proof (cases rule: process_folder_elim)
  case no_db
  then show ?thesis by (intro exI[of _ "[]"]) simp
next
  case (raised e)
  from process_files_sizes[OF raised(1) assms(1) e] obtain bl where
    "tr' = tr @ map (InsertMany (collection_name_of folder_name)) bl"
    "\<forall>b\<in>set bl. int (length b) = batch_size" by auto
  with assms(1) show ?thesis by (intro exI[of _ bl]) (auto dest: in_set_butlastD)
next
  case (even s1)
  from process_files_sizes[OF even(1) assms(1) e] obtain bl where
    "tr' = tr @ map (InsertMany (collection_name_of folder_name)) bl"
    "\<forall>b\<in>set bl. int (length b) = batch_size" by auto
  with assms(1) show ?thesis by (intro exI[of _ bl]) (auto dest: in_set_butlastD)
next
  case (last t1 batch s1)
  from process_files_sizes[OF last(1) assms(1) e] obtain bl where
    bl: "t1 = tr @ map (InsertMany (collection_name_of folder_name)) bl"
    "\<forall>b\<in>set bl. int (length b) = batch_size" "int (length batch) < batch_size" by auto
  have "tr' = tr @ map (InsertMany (collection_name_of folder_name)) (bl @ [batch])"
    using bl(1) last(3) by simp
  moreover have "\<forall>b\<in>set (bl @ [batch]). b \<noteq> [] \<and> int (length b) \<le> batch_size"
    using bl(2,3) last(2) assms(1) by auto
  moreover have "\<forall>b\<in>set (butlast (bl @ [batch])). int (length b) = batch_size"
    using bl(2) by simp
  ultimately show ?thesis by blast
qed
qed

theorem process_folder_batch_capacity_witness:
  "\<exists>bl. [InsertMany ''ventas_2024''
         [add_metadata ''Ventas 2024'' ''Ventas 2024/f1.json'' [(''factura_num'', JInt 1)],
          add_metadata ''Ventas 2024'' ''ventas_2024/f2.json''
            [(''_source_file'', JStr ''otro''), (''total'', JInt 5)]],
       InsertMany ''ventas_2024''
         [add_metadata ''Ventas 2024'' ''suelto.json'' [(''fecha_hora'', JStr ''2025-09-25'')]]] =
       [] @ map (InsertMany (collection_name_of ''Ventas 2024'')) bl \<and>
     (\<forall>b\<in>set bl. b \<noteq> [] \<and> int (length b) \<le> 2) \<and>
     (\<forall>b\<in>set (butlast bl). int (length b) = 2)"
proof -
  have pos: "(0::int) < 2" by simp
  from process_folder_batch_capacity[OF pos demo_run] show ?thesis .
qed

text \<open>
  C4. Every record of every batch that \<^verbatim>\<open>process_folder\<close> hands to the bulk writer is
  the dict decoded from one entry of the list, with \<^verbatim>\<open>_source_file\<close> set to that entry
  and \<^verbatim>\<open>_source_folder\<close> set to the partition name; whatever the source had under these
  keys is overwritten.
\<close>

theorem batched_records_carry_provenance:
  assumes "process_folder env self tr folder_name file_list batch_size = (tr', r)"
    and "(c, batch) \<in> set (batches (drop (length tr) tr'))"
    and "doc \<in> set batch"
  shows "\<exists>file_path d kvs. file_path \<in> set file_list \<and>
           load_json_fast self file_path = Inr (JObj d) \<and>
           doc = add_metadata folder_name file_path d \<and>
           doc = JObj kvs \<and>
           dict_get kvs ''_source_file'' = Some (JStr file_path) \<and>
           dict_get kvs ''_source_folder'' = Some (JStr folder_name)"
proof -
  from process_folder_docs[OF assms(1)] obtain bl where
    bl: "tr' = tr @ map (InsertMany (collection_name_of folder_name)) bl"
    "\<forall>b\<in>set bl. \<forall>doc\<in>set b. produced_by self folder_name (set file_list) doc" by blast
  from bl(1) assms(2) have "batch \<in> set bl" by (auto simp add: batches_InsertMany)
  with bl(2) assms(3) have "produced_by self folder_name (set file_list) doc" by blast
  then obtain f d where fd: "f \<in> set file_list" "load_json_fast self f = Inr (JObj d)"
    "doc = add_metadata folder_name f d" unfolding produced_by_def by blast
  let ?kvs = "dict_set ''_source_folder'' (JStr folder_name) (dict_set ''_source_file'' (JStr f) d)"
  have "doc = JObj ?kvs" using fd(3) by (simp add: add_metadata_def)
  moreover have "dict_get ?kvs ''_source_folder'' = Some (JStr folder_name)"
    by (rule dict_get_set_same)
  moreover have "dict_get ?kvs ''_source_file'' = Some (JStr f)"
    by (simp add: dict_get_set_other dict_get_set_same)
  ultimately show ?thesis using fd by blast
qed

theorem batched_records_carry_provenance_witness:
  "(\<exists>file_path d kvs.
      file_path \<in> set [''Ventas 2024/f1.json'', ''roto.json'', ''ventas_2024/f2.json'',
                           ''suelto.json''] \<and>
      load_json_fast demo_loader file_path = Inr (JObj d) \<and>
      add_metadata ''Ventas 2024'' ''ventas_2024/f2.json''
        [(''_source_file'', JStr ''otro''), (''total'', JInt 5)] =
        add_metadata ''Ventas 2024'' file_path d \<and>
      add_metadata ''Ventas 2024'' ''ventas_2024/f2.json''
        [(''_source_file'', JStr ''otro''), (''total'', JInt 5)] = JObj kvs \<and>
      dict_get kvs ''_source_file'' = Some (JStr file_path) \<and>
      dict_get kvs ''_source_folder'' = Some (JStr ''Ventas 2024'')) \<and>
   add_metadata ''Ventas 2024'' ''ventas_2024/f2.json''
     [(''_source_file'', JStr ''otro''), (''total'', JInt 5)] =
     JObj [(''_source_file'', JStr ''ventas_2024/f2.json''), (''total'', JInt 5),
           (''_source_folder'', JStr ''Ventas 2024'')]"
proof -
  have m: "(''ventas_2024'',
      [add_metadata ''Ventas 2024'' ''Ventas 2024/f1.json'' [(''factura_num'', JInt 1)],
       add_metadata ''Ventas 2024'' ''ventas_2024/f2.json''
         [(''_source_file'', JStr ''otro''), (''total'', JInt 5)]])
    \<in> set (batches (drop (length ([]::event list))
       [InsertMany ''ventas_2024''
         [add_metadata ''Ventas 2024'' ''Ventas 2024/f1.json'' [(''factura_num'', JInt 1)],
          add_metadata ''Ventas 2024'' ''ventas_2024/f2.json''
            [(''_source_file'', JStr ''otro''), (''total'', JInt 5)]],
       InsertMany ''ventas_2024''
         [add_metadata ''Ventas 2024'' ''suelto.json''
            [(''fecha_hora'', JStr ''2025-09-25'')]]]))"
    by simp
  have n: "add_metadata ''Ventas 2024'' ''ventas_2024/f2.json''
         [(''_source_file'', JStr ''otro''), (''total'', JInt 5)]
    \<in> set [add_metadata ''Ventas 2024'' ''Ventas 2024/f1.json'' [(''factura_num'', JInt 1)],
       add_metadata ''Ventas 2024'' ''ventas_2024/f2.json''
         [(''_source_file'', JStr ''otro''), (''total'', JInt 5)]]"
    by simp
  have v: "add_metadata ''Ventas 2024'' ''ventas_2024/f2.json''
     [(''_source_file'', JStr ''otro''), (''total'', JInt 5)] =
     JObj [(''_source_file'', JStr ''ventas_2024/f2.json''), (''total'', JInt 5),
           (''_source_folder'', JStr ''Ventas 2024'')]"
    by (simp add: add_metadata_def)
  from batched_records_carry_provenance[OF demo_run m n] v show ?thesis by (rule conjI)
qed

text \<open>
  C6. Three partitions of 10, 5 and 0 entries that all decode to non-empty objects,
  processed one after the other with batch size 4, against a store that may reject any
  batch: the first dispatches batches of 4, 4 and 2 records, the second of 4 and 1, the
  third none, and 15 records are handed to the store in all.
\<close>

theorem scenario_three_partitions:
  assumes "db self = Some dbn"
    and "\<forall>h c b. insert_many_result env h c b \<noteq> Some KeyboardInterrupt"
    and "\<forall>f\<in>set files1. \<exists>d. load_json_fast self f = Inr (JObj d) \<and> d \<noteq> []"
    and "\<forall>f\<in>set files2. \<exists>d. load_json_fast self f = Inr (JObj d) \<and> d \<noteq> []"
    and "length files1 = 10" and "length files2 = 5"
    and "process_folder env self tr0 folder1 files1 4 = (tr1, r1)"
    and "process_folder env self tr1 folder2 files2 4 = (tr2, r2)"
    and "process_folder env self tr2 folder3 [] 4 = (tr3, r3)"
  shows "map (length \<circ> snd) (batches (drop (length tr0) tr1)) = [4, 4, 2] \<and>
         map (length \<circ> snd) (batches (drop (length tr1) tr2)) = [4, 1] \<and>
         map (length \<circ> snd) (batches (drop (length tr2) tr3)) = [] \<and>
         sum_list (map (length \<circ> snd) (batches (drop (length tr0) tr3))) = 15"
proof -
  have four: "(0::nat) < 4" "(4::int) = int 4" by simp_all
  have none: "\<forall>f\<in>set ([]::string list). \<exists>d. load_json_fast self f = Inr (JObj d) \<and> d \<noteq> []"
    by simp
  from process_folder_docs[OF assms(7)] obtain bl1 where
    t1: "tr1 = tr0 @ map (InsertMany (collection_name_of folder1)) bl1" by blast
  from process_folder_docs[OF assms(8)] obtain bl2 where
    t2: "tr2 = tr1 @ map (InsertMany (collection_name_of folder2)) bl2" by blast
  from process_folder_docs[OF assms(9)] obtain bl3 where
    t3: "tr3 = tr2 @ map (InsertMany (collection_name_of folder3)) bl3" by blast
  have c1: "replicate ((10::nat) div 4) (4::nat) @ (if (10::nat) mod 4 = 0 then [] else [10 mod 4]) =
      [4, 4, 2]" by code_simp
  have c2: "replicate ((5::nat) div 4) (4::nat) @ (if (5::nat) mod 4 = 0 then [] else [5 mod 4]) =
      [4, 1]" by code_simp
  have c3: "replicate (length ([]::string list) div 4) (4::nat) @
      (if length ([]::string list) mod 4 = 0 then [] else [length ([]::string list) mod 4]) = []"
    by simp
  from process_folder_wellformed[OF assms(1,2,3) four(1) assms(7)[unfolded four(2)]]
  have "map (length \<circ> snd) (batches (drop (length tr0) tr1)) =
      replicate (length files1 div 4) 4 @
      (if length files1 mod 4 = 0 then [] else [length files1 mod 4])" by (rule conjunct1)
  then have s1: "map (length \<circ> snd) (batches (drop (length tr0) tr1)) = [4, 4, 2]"
    unfolding assms(5) c1 .
  from process_folder_wellformed[OF assms(1,2,4) four(1) assms(8)[unfolded four(2)]]
  have "map (length \<circ> snd) (batches (drop (length tr1) tr2)) =
      replicate (length files2 div 4) 4 @
      (if length files2 mod 4 = 0 then [] else [length files2 mod 4])" by (rule conjunct1)
  then have s2: "map (length \<circ> snd) (batches (drop (length tr1) tr2)) = [4, 1]"
    unfolding assms(6) c2 .
  from process_folder_wellformed[OF assms(1,2) none four(1) assms(9)[unfolded four(2)]]
  have "map (length \<circ> snd) (batches (drop (length tr2) tr3)) =
      replicate (length ([]::string list) div 4) 4 @
      (if length ([]::string list) mod 4 = 0 then [] else [length ([]::string list) mod 4])"
    by (rule conjunct1)
  then have s3: "map (length \<circ> snd) (batches (drop (length tr2) tr3)) = []"
    unfolding c3 .
  have "batches (drop (length tr0) tr3) =
      batches (drop (length tr0) tr1) @ batches (drop (length tr1) tr2) @
      batches (drop (length tr2) tr3)"
    unfolding t3 t2 t1 by (simp add: batches_append)
  then have "sum_list (map (length \<circ> snd) (batches (drop (length tr0) tr3))) = 15"
    using s1 s2 s3 by simp
  with s1 s2 s3 show ?thesis by blast
qed

theorem scenario_three_partitions_witness:
  "let t1 = fst (process_folder demo_env uniform_loader [] ''a'' (scenario_entries ''a'' 10) 4);
       t2 = fst (process_folder demo_env uniform_loader t1 ''b'' (scenario_entries ''b'' 5) 4);
       t3 = fst (process_folder demo_env uniform_loader t2 ''c'' [] 4)
   in map (length \<circ> snd) (batches (drop (length ([]::event list)) t1)) = [4, 4, 2] \<and>
      map (length \<circ> snd) (batches (drop (length t1) t2)) = [4, 1] \<and>
      map (length \<circ> snd) (batches (drop (length t2) t3)) = [] \<and>
      sum_list (map (length \<circ> snd) (batches (drop (length ([]::event list)) t3))) = 15"
proof -
  have a: "db uniform_loader = Some ''Facturas''" by (simp add: uniform_loader_def)
  have b: "\<forall>h c b. insert_many_result demo_env h c b \<noteq> Some KeyboardInterrupt"
    by (simp add: demo_env_def)
  have c: "\<forall>f\<in>set (scenario_entries ''a'' 10).
      \<exists>d. load_json_fast uniform_loader f = Inr (JObj d) \<and> d \<noteq> []"
    by (simp add: load_json_fast_def uniform_loader_def uniform_archive_def)
  have d: "\<forall>f\<in>set (scenario_entries ''b'' 5).
      \<exists>d. load_json_fast uniform_loader f = Inr (JObj d) \<and> d \<noteq> []"
    by (simp add: load_json_fast_def uniform_loader_def uniform_archive_def)
  have e: "length (scenario_entries ''a'' 10) = 10" by (simp add: scenario_entries_def)
  have f: "length (scenario_entries ''b'' 5) = 5" by (simp add: scenario_entries_def)
  show ?thesis
    unfolding Let_def
    by (rule scenario_three_partitions[OF a b c d e f prod.collapse[symmetric]
          prod.collapse[symmetric] prod.collapse[symmetric]])
qed

text \<open>
  C7. Without a connection string (absent or empty), or when the client cannot be built or
  the ping fails, \<^verbatim>\<open>main\<close> does not end with a successful run, the archive is neither
  opened nor listed, and no batch is handed to the store.
\<close>

theorem no_connection_no_writes:
  assumes "env_mongo_uri env = None \<or> env_mongo_uri env = Some [] \<or>
           client_result env \<noteq> None \<or> ping_result env \<noteq> None"
    and "main env = (tr, result)"
  shows "result \<noteq> Finished True \<and> OpenZip \<notin> set tr \<and> ListZip \<notin> set tr \<and> batches tr = []"
proof (cases "env_mongo_uri env")
  case None
  with assms(2) show ?thesis by (auto simp add: main_def)
next
  case (Some uri)
  show ?thesis
  proof (cases "uri = []")
    case True
    with Some assms(2) show ?thesis by (auto simp add: main_def)
  next
    case False
    with Some assms(1) have bad: "client_result env \<noteq> None \<or> ping_result env \<noteq> None" by simp
    show ?thesis
    proof (cases "client_result env")
      case (Some e)
      with \<open>env_mongo_uri env = Some uri\<close> False assms(2) show ?thesis
        by (auto simp add: main_def run_complete_process_def connect_to_mongodb_def
            close_connection_def Let_def split: if_splits)
    next
      case None
      with bad obtain e where "ping_result env = Some e" by auto
      with None \<open>env_mongo_uri env = Some uri\<close> False assms(2) show ?thesis
        by (auto simp add: main_def run_complete_process_def connect_to_mongodb_def
            close_connection_def Let_def split: if_splits)
    qed
  qed
qed

theorem no_connection_no_writes_witness:
  "main (demo_env\<lparr>ping_result := Some ConnectionFailure\<rparr>) =
     ([Connect, Ping, CloseClient], Finished False) \<and>
   Finished False \<noteq> Finished True \<and>
   OpenZip \<notin> set [Connect, Ping, CloseClient] \<and>
   ListZip \<notin> set [Connect, Ping, CloseClient] \<and>
   batches [Connect, Ping, CloseClient] = []"
proof -
  have a: "env_mongo_uri (demo_env\<lparr>ping_result := Some ConnectionFailure\<rparr>) = None \<or>
      env_mongo_uri (demo_env\<lparr>ping_result := Some ConnectionFailure\<rparr>) = Some [] \<or>
      client_result (demo_env\<lparr>ping_result := Some ConnectionFailure\<rparr>) \<noteq> None \<or>
      ping_result (demo_env\<lparr>ping_result := Some ConnectionFailure\<rparr>) \<noteq> None"
    by simp
  have b: "main (demo_env\<lparr>ping_result := Some ConnectionFailure\<rparr>) =
     ([Connect, Ping, CloseClient], Finished False)"
    by (simp add: main_def run_complete_process_def connect_to_mongodb_def
        close_connection_def demo_env_def Let_def)
  from no_connection_no_writes[OF a b] b show ?thesis by (rule conjI[rotated])
qed

text \<open>
  C2, as stated, fails: the archive of the example has the two partitions
  \<^verbatim>\<open>Ventas 2024\<close> and \<^verbatim>\<open>ventas_2024\<close>, and both are given the collection
  \<^verbatim>\<open>ventas_2024\<close>.
\<close>

theorem distinct_partitions_share_collection:
  "map fst (folders_of (infolist demo_archive)) = [''Ventas 2024'', ''ventas_2024'', ''root''] \<and>
   ''Ventas 2024'' \<noteq> ''ventas_2024'' \<and>
   collection_name_of ''Ventas 2024'' = collection_name_of ''ventas_2024''"
  by code_simp

text \<open>
  C2, amended. Among ASCII partition names without upper-case letters, of which either
  none has an underscore or none has a space, two different names are given different
  collections. (Python lowers letters outside ASCII too; bytes 128 and above are left to
  the hypothesis.)
\<close>

theorem collection_name_injective:
  assumes "\<forall>c\<in>set a \<union> set b. (of_char c :: nat) < 128 \<and>
             \<not> (65 \<le> (of_char c :: nat) \<and> (of_char c :: nat) \<le> 90)"
    and "CHR ''_'' \<notin> set a \<union> set b \<or> CHR '' '' \<notin> set a \<union> set b"
    and "a \<noteq> b"
  shows "collection_name_of a \<noteq> collection_name_of b"
proof
  assume same: "collection_name_of a = collection_name_of b"
  let ?g = "\<lambda>c. lower_char (if c = CHR '' '' then CHR ''_'' else c)"
  have us: "lower_char CHR ''_'' = CHR ''_''" by (simp add: lower_char_def)
  have g: "\<And>c. c \<in> set a \<union> set b \<Longrightarrow> ?g c = (if c = CHR '' '' then CHR ''_'' else c)"
    using assms(1) us by (simp add: lower_char_id)
  have "inj_on ?g (set a \<union> set b)"
  proof (rule inj_onI)
    fix x y
    assume x: "x \<in> set a \<union> set b" and y: "y \<in> set a \<union> set b" and e: "?g x = ?g y"
    from e g[OF x] g[OF y]
    have "(if x = CHR '' '' then CHR ''_'' else x) = (if y = CHR '' '' then CHR ''_'' else y)"
      by simp
    with assms(2) x y show "x = y" by (auto split: if_splits)
  qed
  then have "(map ?g a = map ?g b) = (a = b)" by (rule inj_on_map_eq_map)
  with same have "a = b" by (simp add: collection_name_of_map)
  with assms(3) show False by simp
qed

theorem collection_name_injective_witness:
  "collection_name_of ''ventas 2024'' \<noteq> collection_name_of ''ventas 2025''"
proof -
  have a: "\<forall>c\<in>set ''ventas 2024'' \<union> set ''ventas 2025''. (of_char c :: nat) < 128 \<and>
             \<not> (65 \<le> (of_char c :: nat) \<and> (of_char c :: nat) \<le> 90)"
    by simp
  have b: "CHR ''_'' \<notin> set ''ventas 2024'' \<union> set ''ventas 2025'' \<or>
           CHR '' '' \<notin> set ''ventas 2024'' \<union> set ''ventas 2025''"
    by simp
  have c: "''ventas 2024'' \<noteq> ''ventas 2025''" by simp
  from collection_name_injective[OF a b c] show ?thesis .
qed

text \<open>
  C8. With a connection, and a store whose failures are exceptions of class
  \<^verbatim>\<open>Exception\<close>, \<^verbatim>\<open>create_indexes\<close> returns normally, and the calls it makes are, one
  collection after the other in the order of the list, the calls made for each collection.
  For every collection these begin with the index on \<^verbatim>\<open>_source_file\<close>, whatever failed
  for the collections before it, and concern this collection only. For a collection whose
  calls all succeed they are exactly, in this order: the two provenance indexes, the
  compound index, the probe, and the index on \<^verbatim>\<open>factura_num\<close> and on \<^verbatim>\<open>fecha_hora\<close>
  when the probed document has the field, and no other call.
\<close>

theorem create_indexes_per_collection:
  assumes "db self = Some dbn"
    and "\<forall>h c s. create_index_result env h c s \<noteq> Some KeyboardInterrupt"
    and "\<forall>h c. find_one_result env h c \<noteq> Inl KeyboardInterrupt"
  shows "\<exists>segs. length segs = length collections \<and>
           create_indexes env self tr collections = (tr @ concat segs, Inr ()) \<and>
           (\<forall>i<length collections.
              (\<exists>evs. segs ! i = CreateIndex (collections ! i) (IdxField ''_source_file'') # evs) \<and>
              (\<forall>ev\<in>set (segs ! i).
                 (\<exists>s. ev = CreateIndex (collections ! i) s) \<or> ev = FindOne (collections ! i)) \<and>
              (\<forall>sample.
                 (\<forall>h s. create_index_result env h (collections ! i) s = None) \<and>
                 (\<forall>h. find_one_result env h (collections ! i) = Inr sample) \<longrightarrow>
                 segs ! i = index_calls_expected (collections ! i) sample))"
  using index_collections_segments[OF assms(2,3), of collections tr] assms(1)
  unfolding index_segment_def by (simp add: create_indexes_def)

theorem create_indexes_per_collection_witness:
  "(\<exists>segs. length segs = length [''rota'', ''ventas_2024''] \<and>
      create_indexes demo_env demo_loader [] [''rota'', ''ventas_2024''] =
        ([] @ concat segs, Inr ()) \<and>
      (\<forall>i<length [''rota'', ''ventas_2024''].
         (\<exists>evs. segs ! i =
            CreateIndex ([''rota'', ''ventas_2024''] ! i) (IdxField ''_source_file'') # evs) \<and>
         (\<forall>ev\<in>set (segs ! i).
            (\<exists>s. ev = CreateIndex ([''rota'', ''ventas_2024''] ! i) s) \<or>
            ev = FindOne ([''rota'', ''ventas_2024''] ! i)) \<and>
         (\<forall>sample.
            (\<forall>h s. create_index_result demo_env h ([''rota'', ''ventas_2024''] ! i) s = None) \<and>
            (\<forall>h. find_one_result demo_env h ([''rota'', ''ventas_2024''] ! i) = Inr sample) \<longrightarrow>
            segs ! i = index_calls_expected ([''rota'', ''ventas_2024''] ! i) sample))) \<and>
   create_indexes demo_env demo_loader [] [''rota'', ''ventas_2024''] =
     ([CreateIndex ''rota'' (IdxField ''_source_file''),
       CreateIndex ''ventas_2024'' (IdxField ''_source_file''),
       CreateIndex ''ventas_2024'' (IdxField ''_source_folder''),
       CreateIndex ''ventas_2024''
         (IdxCompound [(''_source_folder'', 1), (''_source_file'', 1)]),
       FindOne ''ventas_2024'',
       CreateIndex ''ventas_2024'' (IdxField ''factura_num'')], Inr ())"
proof -
  have a: "db demo_loader = Some ''Facturas''" by (simp add: demo_loader_def)
  have b: "\<forall>h c s. create_index_result demo_env h c s \<noteq> Some KeyboardInterrupt"
    by (simp add: demo_env_def)
  have c: "\<forall>h c. find_one_result demo_env h c \<noteq> Inl KeyboardInterrupt"
    by (simp add: demo_env_def)
  have run: "create_indexes demo_env demo_loader [] [''rota'', ''ventas_2024''] =
     ([CreateIndex ''rota'' (IdxField ''_source_file''),
       CreateIndex ''ventas_2024'' (IdxField ''_source_file''),
       CreateIndex ''ventas_2024'' (IdxField ''_source_folder''),
       CreateIndex ''ventas_2024''
         (IdxCompound [(''_source_folder'', 1), (''_source_file'', 1)]),
       FindOne ''ventas_2024'',
       CreateIndex ''ventas_2024'' (IdxField ''factura_num'')], Inr ())"
    by (simp add: create_indexes_def index_collection_def create_index_def find_one_def
        sample_has_def dict_contains_def demo_env_def demo_loader_def)
  from create_indexes_per_collection[OF a b c, of "[''rota'', ''ventas_2024'']" "[]"] run
  show ?thesis by (rule conjI)
qed

end
